theory Spec2Isabelle
  imports Complex_Main "HOL-Library.Word"
begin

section \<open>Values of the platform\<close>

text \<open>
  The sample rate of an \<open>AudioBuffer\<close> is taken to be a whole number of hertz, as
  every statement below takes it; lengths, channel counts and offsets are natural
  numbers. Allocation (of typed arrays, buffers and views) is taken to succeed.

  An element of a \<open>Float32Array\<close>, and more generally a JavaScript number where
  fractions matter. A finite value is the real number it denotes; the sign of zero is
  not kept (no operation below distinguishes \<open>-0\<close> from \<open>0\<close>). The products
  the encoder forms, a binary32 value times \<open>0x8000\<close> or \<open>0x7FFF\<close>, need at
  most 39 significant bits and are exact in binary64, so real multiplication is what
  the engine computes on them.
\<close>

datatype number = Num real | PosInfinity | NegInfinity | NaN

type_synonym byte = "8 word"

datatype error = EncodingError | NotSupportedError | IndexSizeError | RangeError | TypeError

text \<open>Sequencing of computations that may throw: the first exception wins.\<close>

definition andThen :: "error + 'a \<Rightarrow> ('a \<Rightarrow> error + 'b) \<Rightarrow> error + 'b" where
  "andThen m f = (case m of Inl e \<Rightarrow> Inl e | Inr v \<Rightarrow> f v)"

text \<open>A \<open>Blob\<close>: its bytes and its content type.\<close>

record Blob =
  blobParts :: "byte list"
  blobType :: string

text \<open>
  An \<open>AudioBuffer\<close>: its sample rate, its length in sample frames, and the data of
  its channels. \<open>numberOfChannels\<close> is the number of channels it holds. The platform
  keeps every channel at \<open>length\<close> frames; \<open>platformBuffer\<close> states it.
\<close>

record AudioBuffer =
  sampleRate :: nat
  length_buf :: nat
  channelData :: "number list list"

definition numberOfChannels :: "AudioBuffer \<Rightarrow> nat" where
  "numberOfChannels buffer = length (channelData buffer)"

definition platformBuffer :: "AudioBuffer \<Rightarrow> bool" where
  "platformBuffer buffer =
     list_all (\<lambda>c. length c = length_buf buffer) (channelData buffer)"

text \<open>
  The audio context: its decoding capability, and the largest channel count and the
  range of sample rates its \<open>createBuffer\<close> supports (they depend on the browser; at
  least 32 channels and 8000 to 96000 Hz are supported everywhere).
\<close>

record AudioContext =
  decodeAudioData :: "byte list \<Rightarrow> error + AudioBuffer"
  maxChannels :: nat
  minSampleRate :: nat
  maxSampleRate :: nat

text \<open>
  \<open>BaseAudioContext.createBuffer\<close>: a silent buffer of the given shape;
  \<open>NotSupportedError\<close> when an argument is zero or outside the range the context
  supports.
\<close>

definition createBufferAccepts :: "AudioContext \<Rightarrow> nat \<Rightarrow> nat \<Rightarrow> nat \<Rightarrow> bool" where
  "createBufferAccepts context numChannels len rate =
     (0 < numChannels \<and> numChannels \<le> maxChannels context \<and> 0 < len
      \<and> 0 < rate \<and> minSampleRate context \<le> rate \<and> rate \<le> maxSampleRate context)"

definition createBuffer :: "AudioContext \<Rightarrow> nat \<Rightarrow> nat \<Rightarrow> nat \<Rightarrow> error + AudioBuffer" where
  "createBuffer context numChannels len rate =
     (if createBufferAccepts context numChannels len rate
      then Inr \<lparr>sampleRate = rate, length_buf = len,
                 channelData = replicate numChannels (replicate len (Num 0))\<rparr>
      else Inl NotSupportedError)"

text \<open>\<open>AudioBuffer.getChannelData\<close>: \<open>IndexSizeError\<close> past the last channel.\<close>

definition getChannelData :: "AudioBuffer \<Rightarrow> nat \<Rightarrow> error + number list" where
  "getChannelData buffer channel =
     (if channel < numberOfChannels buffer then Inr (channelData buffer ! channel)
      else Inl IndexSizeError)"

text \<open>
  \<open>AudioBuffer.copyToChannel(source, channelNumber)\<close>, from frame 0: as many frames
  as both the source and the channel have are overwritten.
\<close>

definition copyToChannel :: "AudioBuffer \<Rightarrow> number list \<Rightarrow> nat \<Rightarrow> error + AudioBuffer" where
  "copyToChannel buffer source channelNumber =
     (if channelNumber < numberOfChannels buffer
      then Inr (buffer\<lparr>channelData := (channelData buffer)
             [channelNumber := take (length (channelData buffer ! channelNumber)) source
                @ drop (length source) (channelData buffer ! channelNumber)]\<rparr>)
      else Inl IndexSizeError)"

text \<open>\<open>Float32Array.from\<close> of a \<open>Float32Array\<close> is a fresh copy, element by element.\<close>

definition Float32Array_from :: "number list \<Rightarrow> number list" where
  "Float32Array_from source = map (\<lambda>v. v) source"

text \<open>\<open>TypedArray.prototype.reverse\<close>.\<close>

definition reverse :: "number list \<Rightarrow> number list" where
  "reverse a = rev a"

section \<open>Decoder and reverser: \<open>reverseAudioBuffer\<close>\<close>

text \<open>The body of the loop over the channels: the copy of channel \<open>i\<close>, reversed.\<close>

definition reversedChannelData :: "number list \<Rightarrow> number list" where
  "reversedChannelData channel = reverse (Float32Array_from channel)"

function reverseChannels :: "AudioBuffer \<Rightarrow> nat \<Rightarrow> nat \<Rightarrow> AudioBuffer \<Rightarrow> error + AudioBuffer" where
  "reverseChannels audioBuffer numChannels i reversedBuffer =
     (if i < numChannels
      then andThen (getChannelData audioBuffer i) (\<lambda>channel.
           andThen (copyToChannel reversedBuffer (reversedChannelData channel) i)
             (reverseChannels audioBuffer numChannels (Suc i)))
      else Inr reversedBuffer)"
  by pat_completeness auto
termination
  by (relation "measure (\<lambda>(audioBuffer, numChannels, i, reversedBuffer). numChannels - i)") auto

declare reverseChannels.simps [simp del]

text \<open>
  \<open>reverseAudioBuffer\<close>. The audio context that \<open>getAudioContext\<close> returns is a
  parameter; \<open>audioBlob.arrayBuffer()\<close> gives the bytes of the blob. Whatever is
  thrown inside the \<open>try\<close> block is caught and turned into \<open>null\<close>, which is
  \<open>None\<close> here.
\<close>

definition reverseAudioBuffer :: "AudioContext \<Rightarrow> Blob \<Rightarrow> AudioBuffer option" where
  "reverseAudioBuffer context audioBlob =
     (let arrayBuffer = blobParts audioBlob
      in case andThen (decodeAudioData context arrayBuffer) (\<lambda>audioBuffer.
                andThen (createBuffer context (numberOfChannels audioBuffer)
                           (length_buf audioBuffer) (sampleRate audioBuffer))
                  (reverseChannels audioBuffer (numberOfChannels audioBuffer) 0))
         of Inl e \<Rightarrow> None | Inr reversedBuffer \<Rightarrow> Some reversedBuffer)"

section \<open>WAV encoder: numbers and the \<open>DataView\<close>\<close>

text \<open>The comparison \<open><\<close> of two numbers: false as soon as one of them is \<open>NaN\<close>.\<close>

fun number_less :: "number \<Rightarrow> number \<Rightarrow> bool" where
  "number_less (Num a) (Num b) = (a < b)"
| "number_less NaN y = False"
| "number_less x NaN = False"
| "number_less x NegInfinity = False"
| "number_less PosInfinity y = False"
| "number_less x y = True"

text \<open>\<open>Math.min\<close> and \<open>Math.max\<close> of two arguments: \<open>NaN\<close> when one of them is.\<close>

definition Math_min :: "number \<Rightarrow> number \<Rightarrow> number" where
  "Math_min x y = (if x = NaN \<or> y = NaN then NaN else if number_less y x then y else x)"

definition Math_max :: "number \<Rightarrow> number \<Rightarrow> number" where
  "Math_max x y = (if x = NaN \<or> y = NaN then NaN else if number_less x y then y else x)"

text \<open>
  The product of two numbers. On two finite values it is the real product (exact for
  the products formed below, see above).
\<close>

fun number_times :: "number \<Rightarrow> number \<Rightarrow> number" where
  "number_times (Num a) (Num b) = Num (a * b)"
| "number_times NaN y = NaN"
| "number_times x NaN = NaN"
| "number_times (Num a) y =
     (if a = 0 then NaN else if (0 < a) = (y = PosInfinity) then PosInfinity else NegInfinity)"
| "number_times x (Num b) =
     (if b = 0 then NaN else if (0 < b) = (x = PosInfinity) then PosInfinity else NegInfinity)"
| "number_times x y = (if x = y then PosInfinity else NegInfinity)"

text \<open>
  The conversions a \<open>DataView\<close> setter applies to its value. The header values are
  non-negative integers (far below \<open>2 ^ 53\<close>, where the engine's arithmetic is exact)
  and are natural numbers here; \<open>ToUint8\<close>, \<open>ToUint16\<close> and \<open>ToUint32\<close> reduce
  them modulo the width. \<open>ToInt16\<close> takes any number: \<open>NaN\<close> and the infinities
  become 0, a finite value is truncated towards zero and wrapped into 16 bits, signed.
\<close>

definition ToUint8 :: "nat \<Rightarrow> nat" where
  "ToUint8 v = v mod 2 ^ 8"

definition ToUint16 :: "nat \<Rightarrow> nat" where
  "ToUint16 v = v mod 2 ^ 16"

definition ToUint32 :: "nat \<Rightarrow> nat" where
  "ToUint32 v = v mod 2 ^ 32"

definition truncate_real :: "real \<Rightarrow> int" where
  "truncate_real x = (if x < 0 then \<lceil>x\<rceil> else \<lfloor>x\<rfloor>)"

definition ToInt16 :: "number \<Rightarrow> int" where
  "ToInt16 v =
     (case v of
        Num x \<Rightarrow>
          (let int16bit = truncate_real x mod 2 ^ 16
           in if 2 ^ 15 \<le> int16bit then int16bit - 2 ^ 16 else int16bit)
      | _ \<Rightarrow> 0)"

text \<open>
  \<open>NumericToRawBytes\<close>: the two's complement encoding of an integer in
  \<open>elementSize\<close> bytes, least significant byte first when \<open>littleEndian\<close>.
\<close>

definition NumericToRawBytes :: "nat \<Rightarrow> int \<Rightarrow> bool \<Rightarrow> byte list" where
  "NumericToRawBytes elementSize v littleEndian =
     (let rawBytes = map (\<lambda>k. word_of_int (v div 256 ^ k)) [0..<elementSize]
      in if littleEndian then rawBytes else rev rawBytes)"

text \<open>
  \<open>SetViewValue\<close>: the bytes replace those at \<open>byteOffset\<close>; \<open>RangeError\<close> when
  they would pass the end of the view.
\<close>

definition SetViewValue :: "byte list \<Rightarrow> nat \<Rightarrow> byte list \<Rightarrow> error + byte list" where
  "SetViewValue view byteOffset rawBytes =
     (if length view < byteOffset + length rawBytes then Inl RangeError
      else Inr (take byteOffset view @ rawBytes @ drop (byteOffset + length rawBytes) view))"

definition setUint8 :: "byte list \<Rightarrow> nat \<Rightarrow> nat \<Rightarrow> error + byte list" where
  "setUint8 view byteOffset v =
     SetViewValue view byteOffset (NumericToRawBytes 1 (int (ToUint8 v)) True)"

definition setUint16 :: "byte list \<Rightarrow> nat \<Rightarrow> nat \<Rightarrow> bool \<Rightarrow> error + byte list" where
  "setUint16 view byteOffset v littleEndian =
     SetViewValue view byteOffset (NumericToRawBytes 2 (int (ToUint16 v)) littleEndian)"

definition setUint32 :: "byte list \<Rightarrow> nat \<Rightarrow> nat \<Rightarrow> bool \<Rightarrow> error + byte list" where
  "setUint32 view byteOffset v littleEndian =
     SetViewValue view byteOffset (NumericToRawBytes 4 (int (ToUint32 v)) littleEndian)"

definition setInt16 :: "byte list \<Rightarrow> nat \<Rightarrow> number \<Rightarrow> bool \<Rightarrow> error + byte list" where
  "setInt16 view byteOffset v littleEndian =
     SetViewValue view byteOffset (NumericToRawBytes 2 (ToInt16 v) littleEndian)"

section \<open>WAV encoder: \<open>writeString\<close>, \<open>interleave\<close>, \<open>floatTo16BitPCM\<close>\<close>

text \<open>\<open>writeString\<close>: the loop over the characters of \<open>str\<close>, from index \<open>i\<close>.\<close>

function writeString_from :: "byte list \<Rightarrow> nat \<Rightarrow> string \<Rightarrow> nat \<Rightarrow> error + byte list" where
  "writeString_from view offset str i =
     (if i < length str
      then andThen (setUint8 view (offset + i) (of_char (str ! i)))
             (\<lambda>view'. writeString_from view' offset str (Suc i))
      else Inr view)"
  by pat_completeness auto
termination
  by (relation "measure (\<lambda>(view, offset, str, i). length str - i)") auto

declare writeString_from.simps [simp del]

definition writeString :: "byte list \<Rightarrow> nat \<Rightarrow> string \<Rightarrow> error + byte list" where
  "writeString view offset str = writeString_from view offset str 0"

text \<open>
  Reading element \<open>i\<close> of a typed array for storing it into a \<open>Float32Array\<close>:
  past the end the read gives \<open>undefined\<close>, which is stored as \<open>NaN\<close>.
\<close>

definition typedArrayGet :: "number list \<Rightarrow> nat \<Rightarrow> number" where
  "typedArrayGet a i = (if i < length a then a ! i else NaN)"

text \<open>The first loop of \<open>interleave\<close>: the channel data pushed onto \<open>channels\<close>.\<close>

function collectChannels ::
  "AudioBuffer \<Rightarrow> nat \<Rightarrow> nat \<Rightarrow> number list list \<Rightarrow> error + number list list" where
  "collectChannels buffer numChannels i channels =
     (if i < numChannels
      then andThen (getChannelData buffer i)
             (\<lambda>channel. collectChannels buffer numChannels (Suc i) (channels @ [channel]))
      else Inr channels)"
  by pat_completeness auto
termination
  by (relation "measure (\<lambda>(buffer, numChannels, i, channels). numChannels - i)") auto

declare collectChannels.simps [simp del]

text \<open>
  The inner loop, over the channels \<open>j\<close> of frame \<open>i\<close>: \<open>result[offset++] =
  channels[j][i]\<close>. A store past the end of \<open>result\<close> is ignored, as \<open>list_update\<close>
  does; \<open>channels[j]\<close> past the end of the array has no element to read (a
  \<open>TypeError\<close>).
\<close>

function interleaveFrame ::
  "number list list \<Rightarrow> nat \<Rightarrow> nat \<Rightarrow> nat \<Rightarrow> number list \<Rightarrow> nat \<Rightarrow> error + number list \<times> nat" where
  "interleaveFrame channels numChannels i j result offset =
     (if j < numChannels
      then (if j < length channels
            then interleaveFrame channels numChannels i (Suc j)
                   (result[offset := typedArrayGet (channels ! j) i]) (Suc offset)
            else Inl TypeError)
      else Inr (result, offset))"
  by pat_completeness auto
termination
  by (relation "measure (\<lambda>(channels, numChannels, i, j, result, offset). numChannels - j)") auto

declare interleaveFrame.simps [simp del]

text \<open>The outer loop, over the frames \<open>i\<close>.\<close>

function interleaveFrames ::
  "number list list \<Rightarrow> nat \<Rightarrow> nat \<Rightarrow> nat \<Rightarrow> number list \<Rightarrow> nat \<Rightarrow> error + number list \<times> nat" where
  "interleaveFrames channels numChannels numSamples i result offset =
     (if i < numSamples
      then andThen (interleaveFrame channels numChannels i 0 result offset)
             (\<lambda>(result', offset').
                interleaveFrames channels numChannels numSamples (Suc i) result' offset')
      else Inr (result, offset))"
  by pat_completeness auto
termination
  by (relation "measure (\<lambda>(channels, numChannels, numSamples, i, result, offset). numSamples - i)")
    auto

declare interleaveFrames.simps [simp del]

definition interleave :: "AudioBuffer \<Rightarrow> error + number list" where
  "interleave buffer =
     (let numChannels = numberOfChannels buffer;
          numSamples = length_buf buffer;
          result = replicate (numSamples * numChannels) (Num 0)
      in andThen (collectChannels buffer numChannels 0 []) (\<lambda>channels.
         andThen (interleaveFrames channels numChannels numSamples 0 result 0)
           (\<lambda>(result', offset). Inr result')))"

text \<open>
  The value \<open>floatTo16BitPCM\<close> hands to \<open>setInt16\<close> for the element \<open>x\<close>:
  \<open>s = Math.max(-1, Math.min(1, x))\<close>, then \<open>s < 0 ? s * 0x8000 : s * 0x7FFF\<close>.
\<close>

definition clampSample :: "number \<Rightarrow> number" where
  "clampSample x = Math_max (Num (- 1)) (Math_min (Num 1) x)"

definition scaleSample :: "number \<Rightarrow> number" where
  "scaleSample s =
     (if number_less s (Num 0) then number_times s (Num 32768) else number_times s (Num 32767))"

function floatTo16BitPCM_from ::
  "byte list \<Rightarrow> nat \<Rightarrow> number list \<Rightarrow> nat \<Rightarrow> error + byte list" where
  "floatTo16BitPCM_from output offset input i =
     (if i < length input
      then (let s = clampSample (input ! i)
            in andThen (setInt16 output offset (scaleSample s) True)
                 (\<lambda>output'. floatTo16BitPCM_from output' (offset + 2) input (Suc i)))
      else Inr output)"
  by pat_completeness auto
termination
  by (relation "measure (\<lambda>(output, offset, input, i). length input - i)") auto

declare floatTo16BitPCM_from.simps [simp del]

definition floatTo16BitPCM :: "byte list \<Rightarrow> nat \<Rightarrow> number list \<Rightarrow> error + byte list" where
  "floatTo16BitPCM output offset input = floatTo16BitPCM_from output offset input 0"

section \<open>WAV encoder: \<open>audioBufferToWavBlob\<close>\<close>

definition audioBufferToWavBlob :: "AudioBuffer \<Rightarrow> error + Blob" where
  "audioBufferToWavBlob buffer =
     (let numChannels = numberOfChannels buffer;
          rate = sampleRate buffer;
          format = 1;
          bitDepth = 16
      in andThen (interleave buffer) (\<lambda>interleaved.
         let dataLength = length interleaved * (bitDepth div 8);
             bufferLength = 44 + dataLength;
             view = replicate bufferLength 0
         in andThen (writeString view 0 ''RIFF'') (\<lambda>view.
            andThen (setUint32 view 4 (36 + dataLength) True) (\<lambda>view.
            andThen (writeString view 8 ''WAVE'') (\<lambda>view.
            andThen (writeString view 12 ''fmt '') (\<lambda>view.
            andThen (setUint32 view 16 16 True) (\<lambda>view.
            andThen (setUint16 view 20 format True) (\<lambda>view.
            andThen (setUint16 view 22 numChannels True) (\<lambda>view.
            andThen (setUint32 view 24 rate True) (\<lambda>view.
            andThen (setUint32 view 28 (rate * numChannels * (bitDepth div 8)) True) (\<lambda>view.
            andThen (setUint16 view 32 (numChannels * (bitDepth div 8)) True) (\<lambda>view.
            andThen (setUint16 view 34 bitDepth True) (\<lambda>view.
            andThen (writeString view 36 ''data'') (\<lambda>view.
            andThen (setUint32 view 40 dataLength True) (\<lambda>view.
            andThen (floatTo16BitPCM view 44 interleaved) (\<lambda>view.
            Inr \<lparr>blobParts = view, blobType = ''audio/wav''\<rparr>))))))))))))))))"

section \<open>Reading a byte sequence\<close>

text \<open>
  How the statements below read the encoder's output: the bytes \<open>a\<close> to \<open>b - 1\<close>,
  a little-endian unsigned field, a little-endian signed 16-bit field, the bytes of an
  ASCII string, and the bytes of the blob an encoding returns (none when it throws).
\<close>

definition subarray :: "'a list \<Rightarrow> nat \<Rightarrow> nat \<Rightarrow> 'a list" where
  "subarray xs a b = take (b - a) (drop a xs)"

definition leValue :: "byte list \<Rightarrow> nat" where
  "leValue bs = foldr (\<lambda>b v. unat b + 256 * v) bs 0"

definition leInt16 :: "byte list \<Rightarrow> int" where
  "leInt16 bs = (if leValue bs < 2 ^ 15 then int (leValue bs) else int (leValue bs) - 2 ^ 16)"

definition ascii :: "string \<Rightarrow> byte list" where
  "ascii str = map of_char str"

definition wavBytes :: "AudioBuffer \<Rightarrow> byte list" where
  "wavBytes buffer = (case audioBufferToWavBlob buffer of Inl e \<Rightarrow> [] | Inr blob \<Rightarrow> blobParts blob)"

text \<open>
  Names for what the loops produce: the two bytes \<open>floatTo16BitPCM\<close> writes for one
  element, frame \<open>i\<close> of a list of channels as \<open>interleave\<close> reads it, the bytes
  \<open>setUint32\<close> and \<open>setUint16\<close> write little-endian, and the 44 bytes that the
  header writes of \<open>audioBufferToWavBlob\<close> leave in the view.
\<close>

definition pcm16 :: "number \<Rightarrow> byte list" where
  "pcm16 x = NumericToRawBytes 2 (ToInt16 (scaleSample (clampSample x))) True"

definition frameOf :: "number list list \<Rightarrow> nat \<Rightarrow> number list" where
  "frameOf channels i = map (\<lambda>c. typedArrayGet c i) channels"

definition u32le :: "nat \<Rightarrow> byte list" where
  "u32le v = NumericToRawBytes 4 (int (ToUint32 v)) True"

definition u16le :: "nat \<Rightarrow> byte list" where
  "u16le v = NumericToRawBytes 2 (int (ToUint16 v)) True"

definition wavHeader :: "nat \<Rightarrow> nat \<Rightarrow> nat \<Rightarrow> byte list" where
  "wavHeader numChannels rate dataLength =
     ascii ''RIFF'' @ u32le (36 + dataLength) @ ascii ''WAVE'' @ ascii ''fmt '' @ u32le 16
     @ u16le 1 @ u16le numChannels @ u32le rate @ u32le (rate * numChannels * 2)
     @ u16le (numChannels * 2) @ u16le 16 @ ascii ''data'' @ u32le dataLength"

text \<open>
  Inputs the statements name. For the reverser: a decoded buffer of one channel and no
  frames, a context whose decoder returns it, and a recorded blob. For the encoder: the
  stereo buffer of two frames at 44100 Hz with
  channels \<open>[1.0, -1.0]\<close> and \<open>[0.5, 0.0]\<close>, and a silent stereo recording of
  \<open>2 ^ 30\<close> frames at 48000 Hz (a little over six hours), whose sample data takes
  \<open>2 ^ 32\<close> bytes once encoded.
\<close>

definition zeroFrameBuffer :: AudioBuffer where
  "zeroFrameBuffer = \<lparr>sampleRate = 48000, length_buf = 0, channelData = [[]]\<rparr>"

definition zeroFrameContext :: AudioContext where
  "zeroFrameContext = \<lparr>decodeAudioData = (\<lambda>bytes. Inr zeroFrameBuffer), maxChannels = 32,
                        minSampleRate = 8000, maxSampleRate = 96000\<rparr>"

definition recordedBlob :: Blob where
  "recordedBlob = \<lparr>blobParts = [26, 69, 223, 163], blobType = ''audio/webm''\<rparr>"

definition knownBuffer :: AudioBuffer where
  "knownBuffer = \<lparr>sampleRate = 44100, length_buf = 2,
                   channelData = [[Num 1, Num (- 1)], [Num (1 / 2), Num 0]]\<rparr>"

definition longRecording :: AudioBuffer where
  "longRecording = \<lparr>sampleRate = 48000, length_buf = 1073741824,
                     channelData = replicate 2 (replicate 1073741824 (Num 0))\<rparr>"

section \<open>The reverser: the loop over the channels\<close>

lemma copyToChannel_same_length:
  "i < length (channelData r) \<Longrightarrow> length (channelData r ! i) = length src \<Longrightarrow>
   copyToChannel r src i = Inr (r\<lparr>channelData := (channelData r)[i := src]\<rparr>)"
  by (simp add: copyToChannel_def numberOfChannels_def)

lemma reverseChannels_inv:
  "numChannels = length (channelData a) \<Longrightarrow> i \<le> numChannels \<Longrightarrow>
   length (channelData r) = numChannels \<Longrightarrow>
   list_all (\<lambda>c. length c = n) (channelData a) \<Longrightarrow>
   list_all (\<lambda>c. length c = n) (channelData r) \<Longrightarrow>
   reverseChannels a numChannels i r =
     Inr (r\<lparr>channelData := take i (channelData r) @ map rev (drop i (channelData a))\<rparr>)"
proof (induction a numChannels i r rule: reverseChannels.induct)
  case (1 a numChannels i r)
  show ?case
  proof (cases "i < numChannels")
    case False
    with "1.prems" have "i = numChannels" by simp
    with "1.prems" show ?thesis
      by (subst reverseChannels.simps) simp
  next
    case True
    let ?src = "reversedChannelData (channelData a ! i)"
    let ?r' = "r\<lparr>channelData := (channelData r)[i := ?src]\<rparr>"
    from True "1.prems" have ia: "i < length (channelData a)" and ir: "i < length (channelData r)"
      by simp_all
    from "1.prems" ia ir have len: "length (channelData r ! i) = length ?src"
      by (simp add: list_all_length reversedChannelData_def reverse_def Float32Array_from_def)
    have get: "getChannelData a i = Inr (channelData a ! i)"
      using ia by (simp add: getChannelData_def numberOfChannels_def)
    have copy: "copyToChannel r ?src i = Inr ?r'"
      using ir len by (rule copyToChannel_same_length)
    have all': "list_all (\<lambda>c. length c = n) (channelData ?r')"
      using "1.prems" ia len by (auto simp: list_all_length nth_list_update)
    have IH: "reverseChannels a numChannels (Suc i) ?r' =
       Inr (?r'\<lparr>channelData := take (Suc i) (channelData ?r') @ map rev (drop (Suc i) (channelData a))\<rparr>)"
      using "1.IH"[OF True, of ?r'] "1.prems" True all' by simp
    have "reverseChannels a numChannels i r = reverseChannels a numChannels (Suc i) ?r'"
      by (subst reverseChannels.simps) (simp add: True get copy andThen_def)
    also note IH
    also have "take (Suc i) (channelData ?r') @ map rev (drop (Suc i) (channelData a))
        = take i (channelData r) @ map rev (drop i (channelData a))"
      using ia ir
      by (simp add: take_Suc_conv_app_nth reversedChannelData_def reverse_def
            Float32Array_from_def Cons_nth_drop_Suc [symmetric])
    finally show ?thesis by simp
  qed
qed

lemma reverseAudioBuffer_decoded:
  assumes "decodeAudioData context (blobParts audioBlob) = Inr decoded"
    and "platformBuffer decoded"
    and "createBufferAccepts context (numberOfChannels decoded) (length_buf decoded)
           (sampleRate decoded)"
  shows "reverseAudioBuffer context audioBlob =
           Some (decoded\<lparr>channelData := map rev (channelData decoded)\<rparr>)"
proof -
  let ?z = "\<lparr>sampleRate = sampleRate decoded, length_buf = length_buf decoded,
             channelData = replicate (numberOfChannels decoded) (replicate (length_buf decoded) (Num 0))\<rparr>"
  have cb: "createBuffer context (numberOfChannels decoded) (length_buf decoded)
              (sampleRate decoded) = Inr ?z"
    using assms(3) by (simp add: createBuffer_def)
  have "reverseChannels decoded (numberOfChannels decoded) 0 ?z =
     Inr (?z\<lparr>channelData := take 0 (channelData ?z) @ map rev (drop 0 (channelData decoded))\<rparr>)"
    using assms(2)
    by (intro reverseChannels_inv[where n = "length_buf decoded"])
       (simp_all add: numberOfChannels_def platformBuffer_def list_all_length)
  then show ?thesis
    using assms(1) cb by (simp add: reverseAudioBuffer_def andThen_def Let_def)
qed

lemma reverseAudioBuffer_not_accepted:
  assumes "decodeAudioData context (blobParts audioBlob) = Inr decoded"
    and "\<not> createBufferAccepts context (numberOfChannels decoded) (length_buf decoded)
             (sampleRate decoded)"
  shows "reverseAudioBuffer context audioBlob = None"
  using assms by (simp add: reverseAudioBuffer_def andThen_def Let_def createBuffer_def)

section \<open>The bytes a \<open>DataView\<close> setter writes\<close>

lemma length_NumericToRawBytes [simp]: "length (NumericToRawBytes n v le) = n"
  by (simp add: NumericToRawBytes_def Let_def)

lemma SetViewValue_append:
  "length pre = off \<Longrightarrow> length bs \<le> length rest \<Longrightarrow>
   SetViewValue (pre @ rest) off bs = Inr (pre @ bs @ drop (length bs) rest)"
  by (simp add: SetViewValue_def)

lemma leValue_Nil [simp]: "leValue [] = 0"
  by (simp add: leValue_def)

lemma leValue_Cons [simp]: "leValue (b # bs) = unat b + 256 * leValue bs"
  by (simp add: leValue_def)

lemma unat_byte_of_int: "unat (word_of_int v :: byte) = nat (v mod 256)"
  by (simp add: unat_eq_nat_uint uint_word_of_int take_bit_eq_mod)

lemma leValue_rawBytes:
  "leValue (map (\<lambda>k. word_of_int (v div 256 ^ k)) [0..<n]) = nat (v mod 256 ^ n)"
proof (induction n arbitrary: v)
  case 0
  show ?case by simp
next
  case (Suc n)
  have shift: "map (\<lambda>k. word_of_int (v div 256 ^ k) :: byte) [0..<Suc n]
      = word_of_int v # map (\<lambda>k. word_of_int (v div 256 div 256 ^ k)) [0..<n]"
    by (simp add: upt_conv_Cons map_Suc_upt [symmetric] zdiv_zmult2_eq del: upt_Suc)
  have "v mod (256 * 256 ^ n) = 256 * (v div 256 mod 256 ^ n) + v mod 256"
    by (rule zmod_zmult2_eq) simp
  then have "nat (v mod 256 ^ Suc n) = nat (v mod 256) + 256 * nat (v div 256 mod 256 ^ n)"
    by (simp add: nat_add_distrib nat_mult_distrib)
  then show ?case
    unfolding shift by (simp add: Suc.IH unat_byte_of_int)
qed

lemma leValue_NumericToRawBytes:
  "leValue (NumericToRawBytes n v True) = nat (v mod 256 ^ n)"
  by (simp add: NumericToRawBytes_def leValue_rawBytes)

lemma leValue_Uint32: "leValue (NumericToRawBytes 4 (int (ToUint32 v)) True) = v mod 2 ^ 32"
proof -
  have "nat (int (v mod 2 ^ 32) mod 256 ^ 4) = v mod 2 ^ 32"
    by (simp add: nat_mod_distrib)
  then show ?thesis by (simp add: leValue_NumericToRawBytes ToUint32_def)
qed

lemma leValue_Uint16: "leValue (NumericToRawBytes 2 (int (ToUint16 v)) True) = v mod 2 ^ 16"
proof -
  have "nat (int (v mod 2 ^ 16) mod 256 ^ 2) = v mod 2 ^ 16"
    by (simp add: nat_mod_distrib)
  then show ?thesis by (simp add: leValue_NumericToRawBytes ToUint16_def)
qed

lemma ToInt16_range: "- (2 ^ 15) \<le> ToInt16 v \<and> ToInt16 v < 2 ^ 15"
proof (cases v)
  case (Num x)
  have "0 \<le> truncate_real x mod 65536" "truncate_real x mod 65536 < 65536"
    by simp_all
  then show ?thesis using Num by (auto simp: ToInt16_def Let_def)
qed (simp_all add: ToInt16_def)

lemma leInt16_Int16: "leInt16 (NumericToRawBytes 2 (ToInt16 v) True) = ToInt16 v"
proof -
  have "leValue (NumericToRawBytes 2 (ToInt16 v) True) = nat (ToInt16 v mod 65536)"
    by (simp add: leValue_NumericToRawBytes)
  moreover have "ToInt16 v mod 65536 = ToInt16 v + 65536" if "ToInt16 v < 0"
  proof -
    have "(ToInt16 v + 65536) mod 65536 = ToInt16 v + 65536"
      using that ToInt16_range [of v] by (intro mod_pos_pos_trivial) simp_all
    then show ?thesis by simp
  qed
  moreover have "ToInt16 v mod 65536 = ToInt16 v" if "\<not> ToInt16 v < 0"
    using that ToInt16_range [of v] by (intro mod_pos_pos_trivial) simp_all
  ultimately show ?thesis
    using ToInt16_range [of v] by (cases "ToInt16 v < 0") (simp_all add: leInt16_def)
qed

lemma rawBytes_char: "NumericToRawBytes 1 (int (ToUint8 (of_char c))) True = [of_char c]"
proof -
  have "(of_char c :: nat) < 256" by (cases c) (simp add: of_char_def)
  then show ?thesis
    apply (simp add: NumericToRawBytes_def ToUint8_def)
    apply (simp add: of_char_def)
    done
qed

section \<open>The loops of \<open>writeString\<close> and \<open>floatTo16BitPCM\<close>\<close>

lemma setUint8_append:
  "length pre = off \<Longrightarrow> rest \<noteq> [] \<Longrightarrow>
   setUint8 (pre @ rest) off (of_char c) = Inr (pre @ of_char c # tl rest)"
  unfolding setUint8_def rawBytes_char by (cases rest) (simp_all add: SetViewValue_append)

lemma writeString_from_append:
  "length pre = offset + i \<Longrightarrow> i \<le> length str \<Longrightarrow> length str - i \<le> length rest \<Longrightarrow>
   writeString_from (pre @ rest) offset str i
     = Inr (pre @ ascii (drop i str) @ drop (length str - i) rest)"
proof (induction "length str - i" arbitrary: pre rest i)
  case 0
  then show ?case
    by (subst writeString_from.simps) (simp add: ascii_def)
next
  case (Suc n)
  then have i: "i < length str" and rest: "rest \<noteq> []" by auto
  have step: "setUint8 (pre @ rest) (offset + i) (of_char (str ! i))
      = Inr ((pre @ [of_char (str ! i)]) @ tl rest)"
    using Suc.prems rest by (simp add: setUint8_append)
  have "writeString_from ((pre @ [of_char (str ! i)]) @ tl rest) offset str (Suc i)
      = Inr ((pre @ [of_char (str ! i)]) @ ascii (drop (Suc i) str)
              @ drop (length str - Suc i) (tl rest))"
    using Suc.hyps(2) Suc.prems i by (intro Suc.hyps(1)) simp_all
  moreover have "drop (length str - i) rest = drop (length str - Suc i) (tl rest)"
  proof -
    have "length str - i = Suc (length str - Suc i)" using i by simp
    then show ?thesis by (simp only: drop_Suc)
  qed
  ultimately show ?case
    using i
    by (subst writeString_from.simps)
       (simp add: step andThen_def ascii_def Cons_nth_drop_Suc [symmetric])
qed

lemma writeString_append:
  "length pre = offset \<Longrightarrow> length str \<le> length rest \<Longrightarrow>
   writeString (pre @ rest) offset str = Inr (pre @ ascii str @ drop (length str) rest)"
  using writeString_from_append [of pre offset 0 str rest] by (simp add: writeString_def)

lemma floatTo16BitPCM_from_append:
  "length pre = offset \<Longrightarrow> i \<le> length input \<Longrightarrow> 2 * (length input - i) \<le> length rest \<Longrightarrow>
   floatTo16BitPCM_from (pre @ rest) offset input i
     = Inr (pre @ concat (map pcm16 (drop i input)) @ drop (2 * (length input - i)) rest)"
proof (induction "length input - i" arbitrary: pre rest i offset)
  case 0
  then show ?case
    by (subst floatTo16BitPCM_from.simps) simp
next
  case (Suc n)
  then have i: "i < length input" by auto
  have step: "setInt16 (pre @ rest) offset (scaleSample (clampSample (input ! i))) True
      = Inr ((pre @ pcm16 (input ! i)) @ drop 2 rest)"
    using Suc.prems Suc.hyps(2) by (simp add: setInt16_def SetViewValue_append pcm16_def)
  have "floatTo16BitPCM_from ((pre @ pcm16 (input ! i)) @ drop 2 rest) (offset + 2) input (Suc i)
      = Inr ((pre @ pcm16 (input ! i)) @ concat (map pcm16 (drop (Suc i) input))
              @ drop (2 * (length input - Suc i)) (drop 2 rest))"
    using Suc.hyps(2) Suc.prems i by (intro Suc.hyps(1)) (simp_all add: pcm16_def)
  moreover have "2 + 2 * (length input - Suc i) = 2 * (length input - i)"
    using i by simp
  ultimately show ?case
    using i
    by (subst floatTo16BitPCM_from.simps)
       (simp add: step andThen_def Let_def Cons_nth_drop_Suc [symmetric] add.commute)
qed

lemma floatTo16BitPCM_append:
  "length pre = offset \<Longrightarrow> length rest = 2 * length input \<Longrightarrow>
   floatTo16BitPCM (pre @ rest) offset input = Inr (pre @ concat (map pcm16 input))"
  using floatTo16BitPCM_from_append [of pre offset 0 input rest]
  by (simp add: floatTo16BitPCM_def)

section \<open>The loops of \<open>interleave\<close>\<close>

lemma collectChannels_eq:
  "numChannels = numberOfChannels buffer \<Longrightarrow> i \<le> numChannels \<Longrightarrow>
   collectChannels buffer numChannels i channels = Inr (channels @ drop i (channelData buffer))"
proof (induction "numChannels - i" arbitrary: i channels)
  case 0
  then show ?case
    by (subst collectChannels.simps) (simp add: numberOfChannels_def)
next
  case (Suc n)
  then have i: "i < numberOfChannels buffer" by auto
  have "collectChannels buffer numChannels (Suc i) (channels @ [channelData buffer ! i])
      = Inr ((channels @ [channelData buffer ! i]) @ drop (Suc i) (channelData buffer))"
    using Suc.hyps(2) Suc.prems i by (intro Suc.hyps(1)) simp_all
  then show ?case
    using i Suc.prems(1)
    by (subst collectChannels.simps)
       (simp add: getChannelData_def andThen_def numberOfChannels_def
             Cons_nth_drop_Suc [symmetric])
qed

lemma interleaveFrame_eq:
  "length channels = numChannels \<Longrightarrow> j \<le> numChannels \<Longrightarrow>
   offset + (numChannels - j) \<le> length result \<Longrightarrow>
   interleaveFrame channels numChannels i j result offset
     = Inr (take offset result @ map (\<lambda>c. typedArrayGet c i) (drop j channels)
              @ drop (offset + (numChannels - j)) result,
            offset + (numChannels - j))"
proof (induction "numChannels - j" arbitrary: j result offset)
  case 0
  then show ?case
    by (subst interleaveFrame.simps) simp
next
  case (Suc n)
  then have j: "j < numChannels" "j < length channels" by auto
  let ?v = "typedArrayGet (channels ! j) i"
  have off: "offset < length result" using Suc.prems j by simp
  have "interleaveFrame channels numChannels i (Suc j) (result[offset := ?v]) (Suc offset)
      = Inr (take (Suc offset) (result[offset := ?v])
               @ map (\<lambda>c. typedArrayGet c i) (drop (Suc j) channels)
               @ drop (Suc offset + (numChannels - Suc j)) (result[offset := ?v]),
             Suc offset + (numChannels - Suc j))"
    using Suc.hyps(2) Suc.prems j by (intro Suc.hyps(1)) simp_all
  moreover have "Suc offset + (numChannels - Suc j) = offset + (numChannels - j)"
    using j by simp
  moreover have "take (Suc offset) (result[offset := ?v]) = take offset result @ [?v]"
    using off by (simp add: take_Suc_conv_app_nth)
  moreover have "drop (offset + (numChannels - j)) (result[offset := ?v])
      = drop (offset + (numChannels - j)) result"
    using j by simp
  ultimately show ?case
    using j
    by (subst interleaveFrame.simps) (simp add: Cons_nth_drop_Suc [symmetric])
qed

lemma interleaveFrames_eq:
  "length channels = numChannels \<Longrightarrow> i \<le> numSamples \<Longrightarrow>
   offset + (numSamples - i) * numChannels \<le> length result \<Longrightarrow>
   interleaveFrames channels numChannels numSamples i result offset
     = Inr (take offset result @ concat (map (frameOf channels) [i..<numSamples])
              @ drop (offset + (numSamples - i) * numChannels) result,
            offset + (numSamples - i) * numChannels)"
proof (induction "numSamples - i" arbitrary: i result offset)
  case 0
  then show ?case
    by (subst interleaveFrames.simps) simp
next
  case (Suc n)
  then have i: "i < numSamples" by auto
  then have split: "(numSamples - i) * numChannels = numChannels + (numSamples - Suc i) * numChannels"
    by (simp add: Suc_diff_Suc [symmetric] del: Suc_diff_Suc)
  let ?r = "take offset result @ frameOf channels i @ drop (offset + numChannels) result"
  have frame: "interleaveFrame channels numChannels i 0 result offset
      = Inr (?r, offset + numChannels)"
    using Suc.prems split by (simp add: interleaveFrame_eq frameOf_def)
  have len: "length ?r = length result"
    using Suc.prems split by (simp add: frameOf_def)
  have "interleaveFrames channels numChannels numSamples (Suc i) ?r (offset + numChannels)
      = Inr (take (offset + numChannels) ?r @ concat (map (frameOf channels) [Suc i..<numSamples])
               @ drop (offset + numChannels + (numSamples - Suc i) * numChannels) ?r,
             offset + numChannels + (numSamples - Suc i) * numChannels)"
    using Suc.hyps(2) Suc.prems i split len by (intro Suc.hyps(1)) simp_all
  moreover have "take (offset + numChannels) ?r = take offset result @ frameOf channels i"
    using Suc.prems split by (simp add: frameOf_def)
  moreover have "drop (offset + numChannels + (numSamples - Suc i) * numChannels) ?r
      = drop (offset + (numSamples - i) * numChannels) result"
    using Suc.prems split by (simp add: frameOf_def ac_simps)
  ultimately show ?case
    using i split
    by (subst interleaveFrames.simps) (simp add: frame andThen_def upt_conv_Cons add.assoc)
qed

lemma interleave_eq:
  "interleave buffer
     = Inr (concat (map (frameOf (channelData buffer)) [0..<length_buf buffer]))"
proof -
  have "collectChannels buffer (numberOfChannels buffer) 0 [] = Inr (channelData buffer)"
    by (simp add: collectChannels_eq)
  moreover have "interleaveFrames (channelData buffer) (numberOfChannels buffer) (length_buf buffer) 0
        (replicate (length_buf buffer * numberOfChannels buffer) (Num 0)) 0
      = Inr (concat (map (frameOf (channelData buffer)) [0..<length_buf buffer]),
             length_buf buffer * numberOfChannels buffer)"
    by (simp add: interleaveFrames_eq numberOfChannels_def)
  ultimately show ?thesis
    by (simp add: interleave_def Let_def andThen_def)
qed

lemma length_frameOf [simp]: "length (frameOf channels i) = length channels"
  by (simp add: frameOf_def)

lemma length_concat_frames:
  "length (concat (map (frameOf channels) [i..<n])) = (n - i) * length channels"
  by (induction n) (simp_all add: Suc_diff_le)

lemma concat_frames_nth:
  "i < n \<Longrightarrow> j < length channels \<Longrightarrow>
   concat (map (frameOf channels) [0..<n]) ! (i * length channels + j) = frameOf channels i ! j"
proof (induction n)
  case 0
  then show ?case by simp
next
  case (Suc n)
  have len: "length (concat (map (frameOf channels) [0..<n])) = n * length channels"
    using length_concat_frames [of channels 0 n] by simp
  show ?case
  proof (cases "i < n")
    case True
    then have "Suc i \<le> n" by simp
    then have "Suc i * length channels \<le> n * length channels" by (rule mult_le_mono1)
    with Suc.prems have "i * length channels + j < n * length channels" by simp
    then show ?thesis using Suc.IH True Suc.prems len by (simp add: nth_append)
  next
    case False
    with Suc.prems have "i = n" by simp
    then show ?thesis using len Suc.prems by (simp add: nth_append)
  qed
qed

section \<open>The writes of \<open>audioBufferToWavBlob\<close>\<close>

lemma length_ascii [simp]: "length (ascii str) = length str"
  by (simp add: ascii_def)

lemma length_u32le [simp]: "length (u32le v) = 4"
  by (simp add: u32le_def)

lemma length_u16le [simp]: "length (u16le v) = 2"
  by (simp add: u16le_def)

lemma length_pcm16 [simp]: "length (pcm16 x) = 2"
  by (simp add: pcm16_def)

lemma andThen_Inr [simp]: "andThen (Inr v) f = f v"
  by (simp add: andThen_def)

lemma andThen_Inl [simp]: "andThen (Inl e) f = Inl e"
  by (simp add: andThen_def)

lemma writeString_first:
  "length str = 4 \<Longrightarrow> 4 \<le> N \<Longrightarrow>
   writeString (replicate N 0) 0 str = Inr (ascii str @ replicate (N - 4) 0)"
  using writeString_append [of "[]" 0 str "replicate N 0"] by simp

lemma writeString_zeros:
  "length pre = off \<Longrightarrow> length str = 4 \<Longrightarrow> off + 4 \<le> N \<Longrightarrow>
   writeString (pre @ replicate (N - off) 0) off str
     = Inr ((pre @ ascii str) @ replicate (N - (off + 4)) 0)"
  using writeString_append [of pre off str "replicate (N - off) 0"] by simp

lemma setUint32_zeros:
  "length pre = off \<Longrightarrow> off + 4 \<le> N \<Longrightarrow>
   setUint32 (pre @ replicate (N - off) 0) off v True
     = Inr ((pre @ u32le v) @ replicate (N - (off + 4)) 0)"
  using SetViewValue_append [of pre off "u32le v" "replicate (N - off) 0"]
  by (simp add: setUint32_def u32le_def)

lemma setUint16_zeros:
  "length pre = off \<Longrightarrow> off + 2 \<le> N \<Longrightarrow>
   setUint16 (pre @ replicate (N - off) 0) off v True
     = Inr ((pre @ u16le v) @ replicate (N - (off + 2)) 0)"
  using SetViewValue_append [of pre off "u16le v" "replicate (N - off) 0"]
  by (simp add: setUint16_def u16le_def)

lemma header_writes:
  assumes "44 \<le> N" and "N - 44 = 2 * length il"
  shows "andThen (writeString (replicate N 0) 0 ''RIFF'') (\<lambda>view.
         andThen (setUint32 view 4 v1 True) (\<lambda>view.
         andThen (writeString view 8 ''WAVE'') (\<lambda>view.
         andThen (writeString view 12 ''fmt '') (\<lambda>view.
         andThen (setUint32 view 16 v2 True) (\<lambda>view.
         andThen (setUint16 view 20 v3 True) (\<lambda>view.
         andThen (setUint16 view 22 v4 True) (\<lambda>view.
         andThen (setUint32 view 24 v5 True) (\<lambda>view.
         andThen (setUint32 view 28 v6 True) (\<lambda>view.
         andThen (setUint16 view 32 v7 True) (\<lambda>view.
         andThen (setUint16 view 34 v8 True) (\<lambda>view.
         andThen (writeString view 36 ''data'') (\<lambda>view.
         andThen (setUint32 view 40 v9 True) (\<lambda>view.
         andThen (floatTo16BitPCM view 44 il) (\<lambda>view.
         Inr \<lparr>blobParts = view, blobType = t\<rparr>))))))))))))))
       = Inr \<lparr>blobParts =
                (ascii ''RIFF'' @ u32le v1 @ ascii ''WAVE'' @ ascii ''fmt '' @ u32le v2
                 @ u16le v3 @ u16le v4 @ u32le v5 @ u32le v6 @ u16le v7 @ u16le v8
                 @ ascii ''data'' @ u32le v9) @ concat (map pcm16 il),
               blobType = t\<rparr>"
proof -
  have "floatTo16BitPCM (pre @ replicate (2 * length il) 0) 44 il
      = Inr (pre @ concat (map pcm16 il))" if "length pre = 44" for pre
    using that by (simp add: floatTo16BitPCM_append)
  then show ?thesis
    using assms
    by (simp add: writeString_first writeString_zeros setUint32_zeros setUint16_zeros
          del: append_assoc)
qed

lemma audioBufferToWavBlob_eq:
  "audioBufferToWavBlob buffer =
     Inr \<lparr>blobParts =
            wavHeader (numberOfChannels buffer) (sampleRate buffer)
              (2 * (length_buf buffer * numberOfChannels buffer))
            @ concat (map pcm16 (concat (map (frameOf (channelData buffer)) [0..<length_buf buffer]))),
          blobType = ''audio/wav''\<rparr>"
proof -
  let ?il = "concat (map (frameOf (channelData buffer)) [0..<length_buf buffer])"
  have len: "length ?il = length_buf buffer * numberOfChannels buffer"
    using length_concat_frames [of "channelData buffer" 0 "length_buf buffer"]
    by (simp add: numberOfChannels_def)
  show ?thesis
    unfolding audioBufferToWavBlob_def Let_def interleave_eq andThen_Inr wavHeader_def
    by (subst header_writes) (simp_all add: len ac_simps)
qed

section \<open>Reading the output back\<close>

lemma length_wavHeader [simp]: "length (wavHeader nc sr d) = 44"
  by (simp add: wavHeader_def)

lemma subarray_append_left: "b \<le> length xs \<Longrightarrow> subarray (xs @ ys) a b = subarray xs a b"
  by (simp add: subarray_def)

lemma wavHeader_fields:
  "subarray (wavHeader nc sr d) 0 4 = ascii ''RIFF''"
  "subarray (wavHeader nc sr d) 4 8 = u32le (36 + d)"
  "subarray (wavHeader nc sr d) 8 12 = ascii ''WAVE''"
  "subarray (wavHeader nc sr d) 12 16 = ascii ''fmt ''"
  "subarray (wavHeader nc sr d) 16 20 = u32le 16"
  "subarray (wavHeader nc sr d) 20 22 = u16le 1"
  "subarray (wavHeader nc sr d) 22 24 = u16le nc"
  "subarray (wavHeader nc sr d) 24 28 = u32le sr"
  "subarray (wavHeader nc sr d) 28 32 = u32le (sr * nc * 2)"
  "subarray (wavHeader nc sr d) 32 34 = u16le (nc * 2)"
  "subarray (wavHeader nc sr d) 34 36 = u16le 16"
  "subarray (wavHeader nc sr d) 36 40 = ascii ''data''"
  "subarray (wavHeader nc sr d) 40 44 = u32le d"
  by (simp_all add: subarray_def wavHeader_def)

lemma leValue_u32le: "leValue (u32le v) = v mod 2 ^ 32"
  by (simp add: u32le_def leValue_Uint32)

lemma leValue_u16le: "leValue (u16le v) = v mod 2 ^ 16"
  by (simp add: u16le_def leValue_Uint16)

lemma leInt16_pcm16: "leInt16 (pcm16 x) = ToInt16 (scaleSample (clampSample x))"
  by (simp add: pcm16_def leInt16_Int16)

lemma subarray_pcm16:
  "k < length xs \<Longrightarrow> subarray (concat (map pcm16 xs)) (2 * k) (2 * k + 2) = pcm16 (xs ! k)"
proof (induction xs arbitrary: k)
  case Nil
  then show ?case by simp
next
  case (Cons x xs)
  show ?case
  proof (cases k)
    case 0
    then show ?thesis by (simp add: subarray_def)
  next
    case (Suc k')
    with Cons.prems have "k' < length xs" by simp
    then have "subarray (concat (map pcm16 xs)) (2 * k') (2 * k' + 2) = pcm16 (xs ! k')"
      by (rule Cons.IH)
    then show ?thesis using Suc by (simp add: subarray_def)
  qed
qed

lemma subarray_after_header:
  "length h = 44 \<Longrightarrow> subarray (h @ p) (44 + a) (44 + a + 2) = subarray p a (a + 2)"
  by (simp add: subarray_def)

section \<open>Clamping, scaling and \<open>ToInt16\<close>\<close>

lemma clampSample_Num: "clampSample (Num r) = Num (max (- 1) (min 1 r))"
  by (auto simp: clampSample_def Math_max_def Math_min_def max_def min_def)

lemma clampSample_special:
  "clampSample PosInfinity = Num 1" "clampSample NegInfinity = Num (- 1)" "clampSample NaN = NaN"
  by (simp_all add: clampSample_def Math_max_def Math_min_def)

lemma scaleSample_Num:
  "scaleSample (Num s) = Num (if s < 0 then s * 32768 else s * 32767)"
  by (simp add: scaleSample_def)

lemma truncate_real_bounds:
  "- 32768 \<le> y \<Longrightarrow> y \<le> 32767 \<Longrightarrow> - 32768 \<le> truncate_real y \<and> truncate_real y \<le> 32767"
  by (auto simp: truncate_real_def le_floor_iff floor_le_iff ceiling_le_iff le_ceiling_iff)

lemma ToInt16_no_wrap:
  assumes "- 32768 \<le> t" "t \<le> (32767 :: int)"
  shows "(let int16bit = t mod 2 ^ 16 in if 2 ^ 15 \<le> int16bit then int16bit - 2 ^ 16 else int16bit) = t"
proof (cases "t < 0")
  case True
  have "(t + 65536) mod 65536 = t + 65536"
    using assms True by (intro mod_pos_pos_trivial) simp_all
  then have m: "t mod 65536 = t + 65536" by simp
  have "32768 \<le> t + 65536" using assms by simp
  then show ?thesis by (simp add: Let_def m)
next
  case False
  have m: "t mod 65536 = t"
    using assms False by (intro mod_pos_pos_trivial) simp_all
  have "\<not> 32768 \<le> t" using assms by simp
  then show ?thesis by (simp add: Let_def m)
qed

lemma ToInt16_in_range:
  "- 32768 \<le> y \<Longrightarrow> y \<le> 32767 \<Longrightarrow> ToInt16 (Num y) = truncate_real y"
  using truncate_real_bounds [of y] ToInt16_no_wrap [of "truncate_real y"]
  by (simp add: ToInt16_def)

lemma scaled_bounds:
  fixes r :: real
  defines "s \<equiv> max (- 1) (min 1 r)"
  shows "- 32768 \<le> (if s < 0 then s * 32768 else s * 32767)
       \<and> (if s < 0 then s * 32768 else s * 32767) \<le> 32767"
proof -
  have "- 1 \<le> s" "s \<le> 1" by (simp_all add: s_def)
  then show ?thesis by auto
qed

lemma quantize_Num:
  "ToInt16 (scaleSample (clampSample (Num r)))
     = (let s = max (- 1) (min 1 r)
        in if s < 0 then truncate_real (s * 32768) else truncate_real (s * 32767))"
proof -
  define s where "s = max (- 1) (min 1 r)"
  define y where "y = (if s < 0 then s * 32768 else s * 32767)"
  have "scaleSample (clampSample (Num r)) = Num y"
    by (simp only: clampSample_Num scaleSample_Num s_def y_def)
  moreover have "- 32768 \<le> y \<and> y \<le> 32767"
    unfolding y_def s_def by (rule scaled_bounds)
  ultimately have "ToInt16 (scaleSample (clampSample (Num r))) = truncate_real y"
    by (simp add: ToInt16_in_range)
  then show ?thesis
    by (simp only: Let_def y_def s_def if_distrib [of truncate_real])
qed

lemma NumericToRawBytes_2:
  "NumericToRawBytes 2 v True = [word_of_int v, word_of_int (v div 256)]"
proof -
  have "[0..<2] = [0, Suc 0]" by (simp add: eval_nat_numeral)
  then show ?thesis by (simp add: NumericToRawBytes_def)
qed

lemma NumericToRawBytes_4:
  "NumericToRawBytes 4 v True
     = [word_of_int v, word_of_int (v div 256), word_of_int (v div 65536),
        word_of_int (v div 16777216)]"
proof -
  have "[0..<4] = [0, Suc 0, 2, 3]" by (simp add: eval_nat_numeral)
  then show ?thesis by (simp add: NumericToRawBytes_def)
qed

lemma upt_0_2: "[0..<2] = [0, 1]"
  by (simp add: eval_nat_numeral)

section \<open>The encoding as a whole\<close>

lemma frameOf_nth:
  "platformBuffer buffer \<Longrightarrow> i < length_buf buffer \<Longrightarrow> j < numberOfChannels buffer \<Longrightarrow>
   frameOf (channelData buffer) i ! j = channelData buffer ! j ! i"
  by (simp add: frameOf_def typedArrayGet_def platformBuffer_def list_all_length numberOfChannels_def)

lemma interleaved_nth:
  assumes "platformBuffer buffer" "i < length_buf buffer" "j < numberOfChannels buffer"
  shows "concat (map (frameOf (channelData buffer)) [0..<length_buf buffer])
           ! (i * numberOfChannels buffer + j) = channelData buffer ! j ! i"
  using assms concat_frames_nth [of i "length_buf buffer" j "channelData buffer"]
  by (simp add: frameOf_nth numberOfChannels_def)

lemma length_interleaved:
  "length (concat (map (frameOf (channelData buffer)) [0..<length_buf buffer]))
     = length_buf buffer * numberOfChannels buffer"
  using length_concat_frames [of "channelData buffer" 0 "length_buf buffer"]
  by (simp add: numberOfChannels_def)

lemma wavBytes_eq:
  "wavBytes buffer =
     wavHeader (numberOfChannels buffer) (sampleRate buffer)
       (2 * (length_buf buffer * numberOfChannels buffer))
     @ concat (map pcm16 (concat (map (frameOf (channelData buffer)) [0..<length_buf buffer])))"
  by (simp add: wavBytes_def audioBufferToWavBlob_eq)

lemma length_concat_pcm16 [simp]: "length (concat (map pcm16 xs)) = 2 * length xs"
  by (induction xs) simp_all

lemma length_wavBytes:
  "length (wavBytes buffer) = 44 + length_buf buffer * numberOfChannels buffer * 2"
  by (simp add: wavBytes_eq length_interleaved)

lemma wavBytes_header_subarray:
  "b \<le> 44 \<Longrightarrow>
   subarray (wavBytes buffer) a b
     = subarray (wavHeader (numberOfChannels buffer) (sampleRate buffer)
                (2 * (length_buf buffer * numberOfChannels buffer))) a b"
  by (simp add: wavBytes_eq subarray_append_left)

lemma wavBytes_fields:
  "subarray (wavBytes buffer) 0 4 = ascii ''RIFF''"
  "leValue (subarray (wavBytes buffer) 4 8)
     = (36 + length_buf buffer * numberOfChannels buffer * 2) mod 2 ^ 32"
  "subarray (wavBytes buffer) 8 12 = ascii ''WAVE''"
  "subarray (wavBytes buffer) 12 16 = ascii ''fmt ''"
  "leValue (subarray (wavBytes buffer) 16 20) = 16"
  "leValue (subarray (wavBytes buffer) 20 22) = 1"
  "leValue (subarray (wavBytes buffer) 22 24) = numberOfChannels buffer mod 2 ^ 16"
  "leValue (subarray (wavBytes buffer) 24 28) = sampleRate buffer mod 2 ^ 32"
  "leValue (subarray (wavBytes buffer) 28 32)
     = (sampleRate buffer * numberOfChannels buffer * 2) mod 2 ^ 32"
  "leValue (subarray (wavBytes buffer) 32 34) = (numberOfChannels buffer * 2) mod 2 ^ 16"
  "leValue (subarray (wavBytes buffer) 34 36) = 16"
  "subarray (wavBytes buffer) 36 40 = ascii ''data''"
  "leValue (subarray (wavBytes buffer) 40 44)
     = (length_buf buffer * numberOfChannels buffer * 2) mod 2 ^ 32"
  by (simp_all add: wavBytes_header_subarray wavHeader_fields leValue_u32le leValue_u16le ac_simps)

lemma wavBytes_sample:
  assumes "platformBuffer buffer" "i < length_buf buffer" "j < numberOfChannels buffer"
  shows "leInt16 (subarray (wavBytes buffer) (44 + 2 * (i * numberOfChannels buffer + j))
                    (44 + 2 * (i * numberOfChannels buffer + j) + 2))
           = ToInt16 (scaleSample (clampSample (channelData buffer ! j ! i)))"
proof -
  let ?il = "concat (map (frameOf (channelData buffer)) [0..<length_buf buffer])"
  let ?k = "i * numberOfChannels buffer + j"
  have "Suc i * numberOfChannels buffer \<le> length_buf buffer * numberOfChannels buffer"
    using assms(2) by (intro mult_le_mono1) simp
  with assms(3) have k: "?k < length ?il" by (simp add: length_interleaved)
  have "subarray (wavBytes buffer) (44 + 2 * ?k) (44 + 2 * ?k + 2)
      = subarray (concat (map pcm16 ?il)) (2 * ?k) (2 * ?k + 2)"
    unfolding wavBytes_eq by (rule subarray_after_header) simp
  also have "\<dots> = pcm16 (?il ! ?k)" using k by (rule subarray_pcm16)
  also have "?il ! ?k = channelData buffer ! j ! i" using assms by (rule interleaved_nth)
  finally show ?thesis by (simp add: leInt16_pcm16)
qed

lemma audioBufferToWavBlob_wavBytes:
  "audioBufferToWavBlob buffer = Inr \<lparr>blobParts = wavBytes buffer, blobType = ''audio/wav''\<rparr>"
  by (simp add: wavBytes_def audioBufferToWavBlob_eq)

lemma knownBuffer_bytes:
  "wavBytes knownBuffer =
     [82, 73, 70, 70,  44, 0, 0, 0,  87, 65, 86, 69,
      102, 109, 116, 32,  16, 0, 0, 0,  1, 0,  2, 0,
      68, 172, 0, 0,  16, 177, 2, 0,  4, 0,  16, 0,
      100, 97, 116, 97,  8, 0, 0, 0,
      255, 127,  255, 63,  0, 128,  0, 0]"
  by (simp add: knownBuffer_def wavBytes_eq numberOfChannels_def upt_0_2 frameOf_def
        typedArrayGet_def wavHeader_def ascii_def u32le_def u16le_def ToUint32_def ToUint16_def
        NumericToRawBytes_4 NumericToRawBytes_2 pcm16_def clampSample_def Math_max_def
        Math_min_def scaleSample_def ToInt16_def truncate_real_def)

lemma zero_fields: "u16le 0 = [0, 0]" "u32le 0 = [0, 0, 0, 0]"
  by (simp_all add: u16le_def u32le_def ToUint16_def ToUint32_def NumericToRawBytes_2
        NumericToRawBytes_4)

section \<open>The decoder and reverser\<close>

text \<open>
  C1, as amended. When the input decodes, to a buffer whose channels all have the
  buffer's length, and \<open>createBuffer\<close> accepts the shape of the decoded buffer (at
  least one frame, a channel count and a sample rate that the context supports),
  \<open>reverseAudioBuffer\<close> returns a buffer with the same sample rate, the same number
  of channels in the same order and the same length; sample \<open>i\<close> of channel \<open>k\<close> is
  sample \<open>length - 1 - i\<close> of the decoded channel \<open>k\<close>, the very same value. When
  \<open>createBuffer\<close> does not accept the shape, \<open>reverseAudioBuffer\<close> returns
  \<open>null\<close>.
\<close>

theorem reverseAudioBuffer_reverses:
  assumes "decodeAudioData context (blobParts audioBlob) = Inr decoded"
    and "platformBuffer decoded"
  shows "if createBufferAccepts context (numberOfChannels decoded) (length_buf decoded)
              (sampleRate decoded)
         then \<exists>reversed. reverseAudioBuffer context audioBlob = Some reversed
           \<and> sampleRate reversed = sampleRate decoded
           \<and> numberOfChannels reversed = numberOfChannels decoded
           \<and> length_buf reversed = length_buf decoded
           \<and> (\<forall>k < numberOfChannels decoded.
                 length (channelData reversed ! k) = length_buf decoded
                 \<and> (\<forall>i < length_buf decoded.
                       channelData reversed ! k ! i
                         = channelData decoded ! k ! (length_buf decoded - 1 - i)))
         else reverseAudioBuffer context audioBlob = None"
proof (cases "createBufferAccepts context (numberOfChannels decoded) (length_buf decoded)
                (sampleRate decoded)")
  case False
  with assms(1) show ?thesis by (simp add: reverseAudioBuffer_not_accepted)
next
  case True
  let ?r = "decoded\<lparr>channelData := map rev (channelData decoded)\<rparr>"
  have len: "length c = length_buf decoded" if "c \<in> set (channelData decoded)" for c
    using assms(2) that by (simp add: platformBuffer_def list_all_iff)
  have "reverseAudioBuffer context audioBlob = Some ?r"
    using assms True by (rule reverseAudioBuffer_decoded)
  moreover have "length (channelData ?r ! k) = length_buf decoded
      \<and> (\<forall>i < length_buf decoded.
            channelData ?r ! k ! i = channelData decoded ! k ! (length_buf decoded - 1 - i))"
    if "k < numberOfChannels decoded" for k
  proof -
    from that have k: "k < length (channelData decoded)" by (simp add: numberOfChannels_def)
    then have l: "length (channelData decoded ! k) = length_buf decoded"
      by (simp add: len)
    show ?thesis using k l by (simp add: rev_nth)
  qed
  ultimately have "\<exists>reversed. reverseAudioBuffer context audioBlob = Some reversed
           \<and> sampleRate reversed = sampleRate decoded
           \<and> numberOfChannels reversed = numberOfChannels decoded
           \<and> length_buf reversed = length_buf decoded
           \<and> (\<forall>k < numberOfChannels decoded.
                 length (channelData reversed ! k) = length_buf decoded
                 \<and> (\<forall>i < length_buf decoded.
                       channelData reversed ! k ! i
                         = channelData decoded ! k ! (length_buf decoded - 1 - i)))"
    by (intro exI [of _ ?r]) (simp add: numberOfChannels_def)
  with True show ?thesis by simp
qed

theorem reverseAudioBuffer_reverses_witness:
  "\<exists>reversed.
     reverseAudioBuffer
       \<lparr>decodeAudioData =
          (\<lambda>bytes. Inr \<lparr>sampleRate = 48000, length_buf = 3,
                         channelData = [[Num 1, Num 2, Num 3], [Num 4, Num 5, Num 6]]\<rparr>),
        maxChannels = 32, minSampleRate = 8000, maxSampleRate = 96000\<rparr>
       \<lparr>blobParts = [26, 69, 223, 163], blobType = ''audio/webm''\<rparr> = Some reversed
     \<and> sampleRate reversed = 48000 \<and> numberOfChannels reversed = 2
     \<and> length_buf reversed = 3
     \<and> channelData reversed ! 0 ! 0 = Num 3 \<and> channelData reversed ! 0 ! 2 = Num 1
     \<and> channelData reversed ! 1 ! 1 = Num 5 \<and> channelData reversed ! 1 ! 2 = Num 4"
proof -
  let ?d = "\<lparr>sampleRate = 48000, length_buf = 3,
             channelData = [[Num 1, Num 2, Num 3], [Num 4, Num 5, Num 6]]\<rparr>"
  let ?c = "\<lparr>decodeAudioData = (\<lambda>bytes. Inr ?d),
             maxChannels = 32, minSampleRate = 8000, maxSampleRate = 96000\<rparr>"
  let ?blob = "\<lparr>blobParts = [26, 69, 223, 163], blobType = ''audio/webm''\<rparr>"
  have two: "numberOfChannels ?d = 2" by (simp add: numberOfChannels_def)
  have acc: "createBufferAccepts ?c (numberOfChannels ?d) (length_buf ?d) (sampleRate ?d)"
    by (simp add: createBufferAccepts_def two)
  obtain r where r: "reverseAudioBuffer ?c ?blob = Some r"
      "sampleRate r = sampleRate ?d" "numberOfChannels r = numberOfChannels ?d"
      "length_buf r = length_buf ?d"
      "\<forall>k < numberOfChannels ?d. length (channelData r ! k) = length_buf ?d
          \<and> (\<forall>i < length_buf ?d.
                channelData r ! k ! i = channelData ?d ! k ! (length_buf ?d - 1 - i))"
    using reverseAudioBuffer_reverses [of ?c ?blob ?d] acc
    by (auto simp: platformBuffer_def)
  from r(5) two have "channelData r ! 0 ! 0 = Num 3" "channelData r ! 0 ! 2 = Num 1"
      "channelData r ! 1 ! 1 = Num 5" "channelData r ! 1 ! 2 = Num 4"
    by simp_all
  with r(1-4) two show ?thesis by simp
qed

text \<open>
  The claim as stated covers every decodable input. When the decoded buffer has no
  frames, \<open>createBuffer\<close> throws on the zero length, the \<open>catch\<close> block returns
  \<open>null\<close> and no buffer is returned.
\<close>

theorem reverseAudioBuffer_zero_frames_counterexample:
  "decodeAudioData zeroFrameContext (blobParts recordedBlob) = Inr zeroFrameBuffer
   \<and> platformBuffer zeroFrameBuffer
   \<and> numberOfChannels zeroFrameBuffer = 1 \<and> sampleRate zeroFrameBuffer = 48000
   \<and> length_buf zeroFrameBuffer = 0
   \<and> reverseAudioBuffer zeroFrameContext recordedBlob = None"
proof -
  have d: "decodeAudioData zeroFrameContext (blobParts recordedBlob) = Inr zeroFrameBuffer"
    by (simp add: zeroFrameContext_def)
  have "\<not> createBufferAccepts zeroFrameContext (numberOfChannels zeroFrameBuffer)
           (length_buf zeroFrameBuffer) (sampleRate zeroFrameBuffer)"
    by (simp add: createBufferAccepts_def zeroFrameBuffer_def)
  with d have "reverseAudioBuffer zeroFrameContext recordedBlob = None"
    by (rule reverseAudioBuffer_not_accepted)
  with d show ?thesis
    by (simp add: zeroFrameBuffer_def platformBuffer_def numberOfChannels_def)
qed

text \<open>
  C7. When the decoding capability fails, whatever the reason, \<open>reverseAudioBuffer\<close>
  gives its caller the failure value \<open>null\<close> and no buffer.
\<close>

theorem reverseAudioBuffer_decode_failure:
  "decodeAudioData context (blobParts audioBlob) = Inl e \<Longrightarrow>
   reverseAudioBuffer context audioBlob = None"
  by (simp add: reverseAudioBuffer_def andThen_def)

theorem reverseAudioBuffer_decode_failure_witness:
  "reverseAudioBuffer
     \<lparr>decodeAudioData =
        (\<lambda>bytes. if bytes = [] then Inl EncodingError
                  else Inr \<lparr>sampleRate = 48000, length_buf = 1, channelData = [[Num 0]]\<rparr>),
      maxChannels = 32, minSampleRate = 8000, maxSampleRate = 96000\<rparr>
     \<lparr>blobParts = [], blobType = ''audio/webm''\<rparr> = None"
  using reverseAudioBuffer_decode_failure
    [of "\<lparr>decodeAudioData =
           (\<lambda>bytes. if bytes = [] then Inl EncodingError
                     else Inr \<lparr>sampleRate = 48000, length_buf = 1, channelData = [[Num 0]]\<rparr>),
         maxChannels = 32, minSampleRate = 8000, maxSampleRate = 96000\<rparr>"
        "\<lparr>blobParts = [], blobType = ''audio/webm''\<rparr>" EncodingError]
  by simp

text \<open>
  C9. Reversing the samples of a channel twice gives the original samples back, for a
  channel of any length (the empty one included).
\<close>

theorem reversedChannelData_involution:
  "reversedChannelData (reversedChannelData samples) = samples"
  by (simp add: reversedChannelData_def reverse_def Float32Array_from_def)

section \<open>The WAV encoder\<close>

text \<open>
  C5. For a buffer whose channels all have the buffer's length, \<open>interleave\<close> returns
  one flat sequence of \<open>length * numberOfChannels\<close> samples, and the sample at index
  \<open>i * numberOfChannels + j\<close> is sample \<open>i\<close> of channel \<open>j\<close>.
\<close>

theorem interleave_frame_major:
  assumes "platformBuffer buffer"
  shows "\<exists>result. interleave buffer = Inr result
           \<and> length result = length_buf buffer * numberOfChannels buffer
           \<and> (\<forall>i < length_buf buffer. \<forall>j < numberOfChannels buffer.
                 result ! (i * numberOfChannels buffer + j) = channelData buffer ! j ! i)"
  using assms by (simp add: interleave_eq length_interleaved interleaved_nth)

theorem interleave_frame_major_witness:
  "interleave \<lparr>sampleRate = 48000, length_buf = 3,
               channelData = [[Num 1, Num 2, Num 3], [Num 4, Num 5, Num 6]]\<rparr>
     = Inr [Num 1, Num 4, Num 2, Num 5, Num 3, Num 6]"
proof -
  let ?b = "\<lparr>sampleRate = 48000, length_buf = 3,
             channelData = [[Num 1, Num 2, Num 3], [Num 4, Num 5, Num 6]]\<rparr>"
  have pb: "platformBuffer ?b" by (simp add: platformBuffer_def)
  have nc: "numberOfChannels ?b = 2" by (simp add: numberOfChannels_def)
  obtain r where r: "interleave ?b = Inr r" "length r = 6"
    "\<forall>i < 3. \<forall>j < 2. r ! (i * 2 + j) = channelData ?b ! j ! i"
    using interleave_frame_major [OF pb] by (auto simp: nc)
  have "r ! 0 = Num 1" "r ! 1 = Num 4" "r ! 2 = Num 2" "r ! 3 = Num 5" "r ! 4 = Num 3"
    "r ! 5 = Num 6"
    using r(3) [rule_format, of 0 0] r(3) [rule_format, of 0 1] r(3) [rule_format, of 1 0]
      r(3) [rule_format, of 1 1] r(3) [rule_format, of 2 0] r(3) [rule_format, of 2 1]
    by simp_all
  moreover have "r = [r ! 0, r ! 1, r ! 2, r ! 3, r ! 4, r ! 5]"
    using r(2) by (intro nth_equalityI) (auto simp: nth_Cons' less_Suc_eq eval_nat_numeral)
  ultimately have "r = [Num 1, Num 4, Num 2, Num 5, Num 3, Num 6]" by simp
  with r(1) show ?thesis by simp
qed

text \<open>
  C2, as amended. For a finite sample \<open>r\<close> the encoder clamps it to \<open>[-1, 1]\<close> and
  writes the 16-bit value obtained by scaling with 32768 (negative) or 32767 (otherwise)
  and dropping the fraction, that is truncating towards zero; the infinities are written
  as the full-scale values and \<open>NaN\<close> as 0.
\<close>

theorem quantize_truncates:
  "clampSample (Num r) = Num (max (- 1) (min 1 r))
   \<and> leInt16 (pcm16 (Num r))
       = (let s = max (- 1) (min 1 r)
          in if s < 0 then truncate_real (s * 32768) else truncate_real (s * 32767))
   \<and> leInt16 (pcm16 PosInfinity) = 32767
   \<and> leInt16 (pcm16 NegInfinity) = - 32768
   \<and> leInt16 (pcm16 NaN) = 0"
proof -
  have inf: "leInt16 (pcm16 PosInfinity) = 32767" "leInt16 (pcm16 NegInfinity) = - 32768"
    by (simp_all add: leInt16_pcm16 clampSample_special scaleSample_def ToInt16_def
          truncate_real_def)
  have nan: "leInt16 (pcm16 NaN) = 0"
    by (simp add: leInt16_pcm16 clampSample_special scaleSample_def ToInt16_def)
  have fin: "leInt16 (pcm16 (Num r))
       = (let s = max (- 1) (min 1 r)
          in if s < 0 then truncate_real (s * 32768) else truncate_real (s * 32767))"
    by (simp only: leInt16_pcm16 quantize_Num)
  show ?thesis
    using clampSample_Num [of r] fin inf nan by (intro conjI)
qed

text \<open>
  The claim as stated asks for rounding to nearest. The sample \<open>0.25\<close> scales to
  \<open>8191.75\<close>; the encoder writes 8191, and the nearest integer is 8192.
\<close>

theorem quantize_round_counterexample:
  "leInt16 (pcm16 (Num (1 / 4))) \<noteq> round ((1 / 4 :: real) * 32767)"
proof -
  have "leInt16 (pcm16 (Num (1 / 4))) = 8191"
    by (simp add: leInt16_pcm16 quantize_Num truncate_real_def)
  moreover have "round ((1 / 4 :: real) * 32767) = 8192"
    by (simp add: round_def)
  ultimately show ?thesis by simp
qed

text \<open>
  C8. For every sample, finite or not, in \<open>[-1, 1]\<close> or outside, the 16-bit value
  written lies in \<open>[-32768, 32767]\<close>. The sample is clamped to \<open>[-1, 1]\<close> first
  (only \<open>NaN\<close> stays \<open>NaN\<close>, and is written as 0), so the scaled number handed to
  \<open>setInt16\<close> is within the 16-bit range before the conversion and the value written
  is its truncation, not a wrapped one.
\<close>

theorem quantize_in_range:
  "- 32768 \<le> leInt16 (pcm16 x) \<and> leInt16 (pcm16 x) \<le> 32767
   \<and> (case clampSample x of
         Num s \<Rightarrow> - 1 \<le> s \<and> s \<le> 1
           \<and> (case x of Num r \<Rightarrow> s = max (- 1) (min 1 r) | PosInfinity \<Rightarrow> s = 1
                | NegInfinity \<Rightarrow> s = - 1 | NaN \<Rightarrow> False)
       | NaN \<Rightarrow> x = NaN
       | _ \<Rightarrow> False)
   \<and> (case scaleSample (clampSample x) of
         Num y \<Rightarrow> - 32768 \<le> y \<and> y \<le> 32767
           \<and> - 32768 \<le> truncate_real y \<and> truncate_real y \<le> 32767
           \<and> leInt16 (pcm16 x) = truncate_real y
       | NaN \<Rightarrow> x = NaN \<and> leInt16 (pcm16 x) = 0
       | _ \<Rightarrow> False)"
proof -
  have range: "- 32768 \<le> leInt16 (pcm16 x) \<and> leInt16 (pcm16 x) \<le> 32767"
    using ToInt16_range [of "scaleSample (clampSample x)"] by (simp add: leInt16_pcm16)
  have fin: "\<exists>y. scaleSample (Num s) = Num y \<and> - 32768 \<le> y \<and> y \<le> 32767
           \<and> - 32768 \<le> truncate_real y \<and> truncate_real y \<le> 32767
           \<and> ToInt16 (Num y) = truncate_real y" if "- 1 \<le> s" "s \<le> 1" for s :: real
  proof -
    define y where "y = (if s < 0 then s * 32768 else s * 32767)"
    have y: "- 32768 \<le> y" "y \<le> 32767" using that by (auto simp: y_def)
    have "scaleSample (Num s) = Num y" by (simp add: scaleSample_Num y_def)
    then show ?thesis
      using y truncate_real_bounds [of y] by (simp add: ToInt16_in_range)
  qed
  show ?thesis
  proof (cases x)
    case (Num r)
    obtain y where "scaleSample (Num (max (- 1) (min 1 r))) = Num y"
        "- 32768 \<le> y" "y \<le> 32767" "- 32768 \<le> truncate_real y" "truncate_real y \<le> 32767"
        "ToInt16 (Num y) = truncate_real y"
      using fin [of "max (- 1) (min 1 r)"] by auto
    then show ?thesis
      using range by (simp add: Num clampSample_Num leInt16_pcm16)
  next
    case PosInfinity
    obtain y where "scaleSample (Num 1) = Num y"
        "- 32768 \<le> y" "y \<le> 32767" "- 32768 \<le> truncate_real y" "truncate_real y \<le> 32767"
        "ToInt16 (Num y) = truncate_real y"
      using fin [of 1] by auto
    then show ?thesis
      using range by (simp add: PosInfinity clampSample_special leInt16_pcm16)
  next
    case NegInfinity
    obtain y where "scaleSample (Num (- 1)) = Num y"
        "- 32768 \<le> y" "y \<le> 32767" "- 32768 \<le> truncate_real y" "truncate_real y \<le> 32767"
        "ToInt16 (Num y) = truncate_real y"
      using fin [of "- 1"] by auto
    then show ?thesis
      using range by (simp add: NegInfinity clampSample_special leInt16_pcm16)
  next
    case NaN
    then show ?thesis
      using range by (simp add: clampSample_special leInt16_pcm16 scaleSample_def ToInt16_def)
  qed
qed

text \<open>
  C3, as amended. For a buffer whose channels all have the buffer's length,
  \<open>audioBufferToWavBlob\<close> returns \<open>44 + dataLength\<close> bytes of type
  \<open>audio/wav\<close>, with \<open>dataLength = frameCount * channelCount * 2\<close>. The ASCII tags
  \<open>RIFF\<close>, \<open>WAVE\<close>, \<open>fmt\<close> (with a space) and \<open>data\<close> stand at bytes 0, 8,
  12 and 36. The little-endian fields are \<open>36 + dataLength\<close> at 4--7, 16 at 16--19,
  1 at 20--21, \<open>channelCount\<close> at 22--23, \<open>sampleRate\<close> at 24--27,
  \<open>sampleRate * channelCount * 2\<close> at 28--31, \<open>channelCount * 2\<close> at 32--33, 16 at
  34--35 and \<open>dataLength\<close> at 40--43, each reduced modulo \<open>2 ^ 16\<close> (two-byte
  field) or \<open>2 ^ 32\<close> (four-byte field), hence the value itself whenever it fits its
  field. The samples follow from byte 44, two bytes each, little-endian and signed,
  frame by frame and channel by channel within a frame.
\<close>

theorem wav_layout:
  assumes "platformBuffer buffer"
  shows "\<exists>blob. audioBufferToWavBlob buffer = Inr blob \<and> blobType blob = ''audio/wav''
     \<and> (let bytes = blobParts blob;
             channelCount = numberOfChannels buffer;
             frameCount = length_buf buffer;
             dataLength = frameCount * channelCount * 2
         in length bytes = 44 + dataLength
          \<and> subarray bytes 0 4 = ascii ''RIFF''
          \<and> leValue (subarray bytes 4 8) = (36 + dataLength) mod 2 ^ 32
          \<and> subarray bytes 8 12 = ascii ''WAVE''
          \<and> subarray bytes 12 16 = ascii ''fmt ''
          \<and> leValue (subarray bytes 16 20) = 16
          \<and> leValue (subarray bytes 20 22) = 1
          \<and> leValue (subarray bytes 22 24) = channelCount mod 2 ^ 16
          \<and> leValue (subarray bytes 24 28) = sampleRate buffer mod 2 ^ 32
          \<and> leValue (subarray bytes 28 32) = (sampleRate buffer * channelCount * 2) mod 2 ^ 32
          \<and> leValue (subarray bytes 32 34) = (channelCount * 2) mod 2 ^ 16
          \<and> leValue (subarray bytes 34 36) = 16
          \<and> subarray bytes 36 40 = ascii ''data''
          \<and> leValue (subarray bytes 40 44) = dataLength mod 2 ^ 32
          \<and> (\<forall>i < frameCount. \<forall>j < channelCount.
                leInt16 (subarray bytes (44 + 2 * (i * channelCount + j))
                           (44 + 2 * (i * channelCount + j) + 2))
                  = ToInt16 (scaleSample (clampSample (channelData buffer ! j ! i)))))"
  unfolding Let_def audioBufferToWavBlob_wavBytes
  using wavBytes_sample [OF assms]
  by (simp add: length_wavBytes wavBytes_fields)

theorem wav_layout_witness:
  "\<exists>blob. audioBufferToWavBlob
             \<lparr>sampleRate = 8000, length_buf = 2, channelData = [[Num (3 / 4), Num (- 1)]]\<rparr>
           = Inr blob
     \<and> length (blobParts blob) = 48
     \<and> subarray (blobParts blob) 0 4 = [82, 73, 70, 70]
     \<and> leValue (subarray (blobParts blob) 4 8) = 40
     \<and> leValue (subarray (blobParts blob) 22 24) = 1
     \<and> leValue (subarray (blobParts blob) 24 28) = 8000
     \<and> leValue (subarray (blobParts blob) 28 32) = 16000
     \<and> leValue (subarray (blobParts blob) 32 34) = 2
     \<and> leValue (subarray (blobParts blob) 40 44) = 4
     \<and> leInt16 (subarray (blobParts blob) 44 46) = 24575
     \<and> leInt16 (subarray (blobParts blob) 46 48) = - 32768"
proof -
  let ?b = "\<lparr>sampleRate = 8000, length_buf = 2, channelData = [[Num (3 / 4), Num (- 1)]]\<rparr>"
  have pb: "platformBuffer ?b" by (simp add: platformBuffer_def)
  have nc: "numberOfChannels ?b = 1" by (simp add: numberOfChannels_def)
  have q: "ToInt16 (scaleSample (clampSample (Num (3 / 4)))) = 24575"
    "ToInt16 (scaleSample (clampSample (Num (- 1)))) = - 32768"
    by (simp_all add: quantize_Num truncate_real_def)
  obtain blob where blob: "audioBufferToWavBlob ?b = Inr blob"
    and layout: "length (blobParts blob) = 44 + 2 * 1 * 2"
      "subarray (blobParts blob) 0 4 = ascii ''RIFF''"
      "leValue (subarray (blobParts blob) 4 8) = (36 + 2 * 1 * 2) mod 2 ^ 32"
      "leValue (subarray (blobParts blob) 22 24) = 1 mod 2 ^ 16"
      "leValue (subarray (blobParts blob) 24 28) = 8000 mod 2 ^ 32"
      "leValue (subarray (blobParts blob) 28 32) = (8000 * 1 * 2) mod 2 ^ 32"
      "leValue (subarray (blobParts blob) 32 34) = (1 * 2) mod 2 ^ 16"
      "leValue (subarray (blobParts blob) 40 44) = (2 * 1 * 2) mod 2 ^ 32"
    and samples: "\<forall>i < 2. \<forall>j < 1.
        leInt16 (subarray (blobParts blob) (44 + 2 * (i * 1 + j)) (44 + 2 * (i * 1 + j) + 2))
          = ToInt16 (scaleSample (clampSample (channelData ?b ! j ! i)))"
    using wav_layout [OF pb] unfolding Let_def nc by auto
  have "leInt16 (subarray (blobParts blob) 44 46) = 24575"
    "leInt16 (subarray (blobParts blob) 46 48) = - 32768"
    using samples [rule_format, of 0 0] samples [rule_format, of 1 0] q by simp_all
  with blob layout show ?thesis by (simp add: ascii_def)
qed

text \<open>
  The claim as stated has the fields equal to the values for every well-formed buffer.
  For the six-hour stereo recording the sample data takes \<open>2 ^ 32\<close> bytes: the
  data-length field holds 0 and the RIFF size field 36.
\<close>

theorem wav_layout_counterexample:
  "platformBuffer longRecording
   \<and> length (wavBytes longRecording)
       = 44 + length_buf longRecording * numberOfChannels longRecording * 2
   \<and> leValue (subarray (wavBytes longRecording) 40 44)
       \<noteq> length_buf longRecording * numberOfChannels longRecording * 2
   \<and> leValue (subarray (wavBytes longRecording) 4 8)
       \<noteq> 36 + length_buf longRecording * numberOfChannels longRecording * 2"
proof -
  have nc: "numberOfChannels longRecording = 2" and len: "length_buf longRecording = 1073741824"
    by (simp_all add: longRecording_def numberOfChannels_def)
  have "platformBuffer longRecording"
    by (simp add: longRecording_def platformBuffer_def list_all_iff)
  then show ?thesis
    by (simp add: length_wavBytes wavBytes_fields nc len)
qed

text \<open>
  C4, as amended. For the buffer at 44100 Hz with two channels \<open>[1.0, -1.0]\<close> and
  \<open>[0.5, 0.0]\<close> the encoder produces exactly these 52 bytes: \<open>RIFF\<close> first, 44 at
  bytes 4--7, 2 at 22--23, 44100 at 24--27, 8 at 40--43, and as payload the 16-bit
  values 32767, 16383, -32768, 0.
\<close>

theorem wav_known_buffer:
  "audioBufferToWavBlob knownBuffer
     = Inr \<lparr>blobParts =
              [82, 73, 70, 70,  44, 0, 0, 0,  87, 65, 86, 69,
               102, 109, 116, 32,  16, 0, 0, 0,  1, 0,  2, 0,
               68, 172, 0, 0,  16, 177, 2, 0,  4, 0,  16, 0,
               100, 97, 116, 97,  8, 0, 0, 0,
               255, 127,  255, 63,  0, 128,  0, 0],
            blobType = ''audio/wav''\<rparr>
   \<and> length (wavBytes knownBuffer) = 52
   \<and> subarray (wavBytes knownBuffer) 0 4 = ascii ''RIFF''
   \<and> leValue (subarray (wavBytes knownBuffer) 4 8) = 44
   \<and> leValue (subarray (wavBytes knownBuffer) 22 24) = 2
   \<and> leValue (subarray (wavBytes knownBuffer) 24 28) = 44100
   \<and> leValue (subarray (wavBytes knownBuffer) 40 44) = 8
   \<and> [leInt16 (subarray (wavBytes knownBuffer) 44 46), leInt16 (subarray (wavBytes knownBuffer) 46 48),
       leInt16 (subarray (wavBytes knownBuffer) 48 50), leInt16 (subarray (wavBytes knownBuffer) 50 52)]
      = [32767, 16383, - 32768, 0]"
proof -
  have "audioBufferToWavBlob knownBuffer
      = Inr \<lparr>blobParts = wavBytes knownBuffer, blobType = ''audio/wav''\<rparr>"
    by (rule audioBufferToWavBlob_wavBytes)
  moreover have "[leInt16 (subarray (wavBytes knownBuffer) 44 46), leInt16 (subarray (wavBytes knownBuffer) 46 48),
       leInt16 (subarray (wavBytes knownBuffer) 48 50), leInt16 (subarray (wavBytes knownBuffer) 50 52)]
      = [32767, 16383, - 32768, 0]"
    by (simp add: knownBuffer_bytes subarray_def leInt16_def)
  moreover have "length (wavBytes knownBuffer) = 52"
    "subarray (wavBytes knownBuffer) 0 4 = ascii ''RIFF''"
    "leValue (subarray (wavBytes knownBuffer) 4 8) = 44"
    "leValue (subarray (wavBytes knownBuffer) 22 24) = 2"
    "leValue (subarray (wavBytes knownBuffer) 24 28) = 44100"
    "leValue (subarray (wavBytes knownBuffer) 40 44) = 8"
    by (simp_all add: knownBuffer_bytes subarray_def ascii_def)
  ultimately show ?thesis by (simp add: knownBuffer_bytes)
qed

text \<open>
  The claim as stated has 16384 as the second payload value; \<open>0.5 * 32767 = 16383.5\<close>
  is truncated to 16383.
\<close>

theorem wav_known_buffer_counterexample:
  "[leInt16 (subarray (wavBytes knownBuffer) 44 46), leInt16 (subarray (wavBytes knownBuffer) 46 48),
    leInt16 (subarray (wavBytes knownBuffer) 48 50), leInt16 (subarray (wavBytes knownBuffer) 50 52)]
   \<noteq> [32767, 16384, - 32768, 0]"
  by (simp add: knownBuffer_bytes subarray_def leInt16_def)

text \<open>
  C6. For every buffer the encoder returns, without an error, exactly
  \<open>44 + length * numberOfChannels * 2\<close> bytes; with no frames these are 44 bytes and
  the data-length field is 0.
\<close>

theorem wav_length:
  "\<exists>blob. audioBufferToWavBlob buffer = Inr blob
     \<and> length (blobParts blob) = 44 + length_buf buffer * numberOfChannels buffer * 2
     \<and> (length_buf buffer = 0 \<longrightarrow>
          length (blobParts blob) = 44 \<and> leValue (subarray (blobParts blob) 40 44) = 0)"
  by (simp add: audioBufferToWavBlob_wavBytes length_wavBytes wavBytes_fields)

theorem wav_length_witness:
  "\<exists>blob. audioBufferToWavBlob \<lparr>sampleRate = 44100, length_buf = 0, channelData = [[], []]\<rparr>
             = Inr blob
     \<and> length (blobParts blob) = 44 \<and> leValue (subarray (blobParts blob) 40 44) = 0"
  using wav_length [of "\<lparr>sampleRate = 44100, length_buf = 0, channelData = [[], []]\<rparr>"]
  by auto

text \<open>
  C10. For a buffer without channels, whatever its sample rate and length, the encoder
  checks nothing and does not fail: it returns 44 bytes in which the channel-count,
  byte-rate, block-align and data-length fields are all zero.
\<close>

theorem wav_zero_channels:
  assumes "numberOfChannels buffer = 0"
  shows "\<exists>blob. audioBufferToWavBlob buffer = Inr blob
     \<and> length (blobParts blob) = 44
     \<and> subarray (blobParts blob) 22 24 = [0, 0]
     \<and> subarray (blobParts blob) 28 32 = [0, 0, 0, 0]
     \<and> subarray (blobParts blob) 32 34 = [0, 0]
     \<and> subarray (blobParts blob) 40 44 = [0, 0, 0, 0]"
  using assms
  by (simp add: audioBufferToWavBlob_wavBytes length_wavBytes wavBytes_header_subarray
        wavHeader_fields zero_fields)

theorem wav_zero_channels_witness:
  "\<exists>blob. audioBufferToWavBlob \<lparr>sampleRate = 44100, length_buf = 1000, channelData = []\<rparr>
             = Inr blob
     \<and> length (blobParts blob) = 44
     \<and> subarray (blobParts blob) 22 24 = [0, 0]
     \<and> subarray (blobParts blob) 28 32 = [0, 0, 0, 0]
     \<and> subarray (blobParts blob) 32 34 = [0, 0]
     \<and> subarray (blobParts blob) 40 44 = [0, 0, 0, 0]"
  using wav_zero_channels [of "\<lparr>sampleRate = 44100, length_buf = 1000, channelData = []\<rparr>"]
  by (simp add: numberOfChannels_def)

end
